theory Spec2Isabelle
  imports Main "HOL-Library.Sublist"
begin

section \<open>Python strings\<close>

text \<open>
  A Python \<open>str\<close> is a sequence of code points. The model uses \<^typ>\<open>string\<close> and reads
  a \<^typ>\<open>char\<close> as the code point of the same number, so it covers the strings whose
  code points are below 256 (ASCII and Latin-1). On that range \<open>str.lower\<close> works
  character by character: \<open>A\<close>..\<open>Z\<close> (65..90) and the Latin-1 capitals 192..214 and
  216..222 move up by 32, every other code point stays.
\<close>

definition lower_char :: "char \<Rightarrow> char" where
  "lower_char c =
     (let n = (of_char c :: nat)
      in if (65 \<le> n \<and> n \<le> 90) \<or> (192 \<le> n \<and> n \<le> 214) \<or> (216 \<le> n \<and> n \<le> 222)
         then char_of (n + 32) else c)"

definition lower :: "string \<Rightarrow> string" where
  "lower s = map lower_char s"

text \<open>
  \<open>str.split()\<close> without arguments cuts at runs of whitespace and yields no empty
  piece. The whitespace code points below 256 are 9..13, 28..32, 133 and 160.
\<close>

definition is_space :: "char \<Rightarrow> bool" where
  "is_space c =
     (let n = (of_char c :: nat)
      in (9 \<le> n \<and> n \<le> 13) \<or> (28 \<le> n \<and> n \<le> 32) \<or> n = 133 \<or> n = 160)"

fun split_from :: "string \<Rightarrow> string \<Rightarrow> string list" where
  "split_from cur [] = (if cur = [] then [] else [cur])"
| "split_from cur (c # cs) =
     (if is_space c
      then (if cur = [] then split_from [] cs else cur # split_from [] cs)
      else split_from (cur @ [c]) cs)"

definition split :: "string \<Rightarrow> string list" where
  "split s = split_from [] s"

text \<open>\<open>sep.join(xs)\<close>: the pieces with \<open>sep\<close> between neighbours.\<close>

fun join :: "string \<Rightarrow> string list \<Rightarrow> string" where
  "join sep [] = []"
| "join sep [x] = x"
| "join sep (x # y # ys) = x @ sep @ join sep (y # ys)"

section \<open>The word sets of \<open>stopwords.py\<close>\<close>

definition DEFAULT_STOPWORDS :: "string set" where
  "DEFAULT_STOPWORDS = set [
     ''a'', ''an'', ''the'',
     ''and'', ''or'', ''but'', ''so'', ''because'', ''as'', ''if'', ''than'', ''then'',
     ''that'', ''this'', ''these'', ''those'',
     ''in'', ''on'', ''at'', ''to'', ''from'', ''of'', ''for'', ''with'', ''about'',
     ''into'', ''over'', ''under'', ''between'',
     ''after'', ''before'', ''during'', ''through'', ''against'', ''without'', ''within'',
     ''is'', ''am'', ''are'', ''was'', ''were'', ''be'', ''been'', ''being'',
     ''do'', ''does'', ''did'',
     ''have'', ''has'', ''had'',
     ''can'', ''could'', ''may'', ''might'', ''must'', ''shall'', ''should'', ''will'',
     ''would'',
     ''very'', ''really'', ''just'', ''also'', ''too'', ''quite'', ''rather'',
     ''it'', ''its'', ''it's'', ''im'', ''i'm'', ''youre'', ''you're'', ''theyre'',
     ''they're'']"

definition NEGATIONS :: "string set" where
  "NEGATIONS = set [
     ''no'', ''not'', ''never'', ''none'', ''nothing'', ''nowhere'',
     ''can't'', ''cannot'', ''dont'', ''don't'', ''doesn't'', ''didn't'',
     ''won't'', ''wouldn't'', ''shouldn't'', ''isn't'', ''aren't'', ''wasn't'',
     ''weren't'']"

definition PRONOUNS :: "string set" where
  "PRONOUNS = set [
     ''i'', ''me'', ''my'', ''mine'',
     ''we'', ''us'', ''our'', ''ours'',
     ''you'', ''your'', ''yours'',
     ''he'', ''him'', ''his'',
     ''she'', ''her'', ''hers'',
     ''they'', ''them'', ''their'', ''theirs'']"

section \<open>\<open>_normalize_token\<close>\<close>

text \<open>The literal \<open>punct\<close> of the source; 0x22 is the double quote.\<close>

definition punct :: string where
  "punct = ''.,!?;:'' @ [CHR 0x22] @ '''()[]{}<>''"

text \<open>
  The two \<open>while\<close> loops, each a recursive function on the current value of \<open>token\<close>:
  the first drops \<open>token[0]\<close>, the second \<open>token[-1]\<close>, while that character is in
  \<open>punct\<close>. Each round shortens the token, so both loops end.
\<close>

function strip_front :: "string \<Rightarrow> string" where
  "strip_front token =
     (if length token > 0 \<and> hd token \<in> set punct then strip_front (tl token) else token)"
  by pat_completeness auto
termination
  by (relation "measure length") auto

function strip_back :: "string \<Rightarrow> string" where
  "strip_back token =
     (if length token > 0 \<and> last token \<in> set punct then strip_back (butlast token)
      else token)"
  by pat_completeness auto
termination
  by (relation "measure length") auto

declare strip_front.simps [simp del] strip_back.simps [simp del]

definition normalize_token :: "string \<Rightarrow> string" where
  "normalize_token token = strip_back (strip_front (lower token))"

section \<open>\<open>remove_stopwords\<close>\<close>

text \<open>
  \<open>text_or_tokens\<close> is a string or a list of tokens; the result is a list of tokens or
  a string, depending on \<open>return_type\<close>.
\<close>

datatype text_or_tokens = Text string | Tokens "string list"

datatype result = TokenList "string list" | Joined string

definition raw_tokens :: "text_or_tokens \<Rightarrow> string list" where
  "raw_tokens x = (case x of Text s \<Rightarrow> split s | Tokens ts \<Rightarrow> ts)"

definition active_stopwords :: "string set option \<Rightarrow> string set" where
  "active_stopwords stopwords =
     (case stopwords of None \<Rightarrow> DEFAULT_STOPWORDS | Some s \<Rightarrow> s)"

text \<open>
  The \<open>for\<close> loop over the raw tokens; \<open>cleaned\<close> is the list built so far, and each
  \<open>continue\<close> is the recursive call on the rest.
\<close>

fun clean_loop :: "string set \<Rightarrow> bool \<Rightarrow> bool \<Rightarrow> string list \<Rightarrow> string list \<Rightarrow> string list"
where
  "clean_loop stopwords keep_negations keep_pronouns cleaned [] = cleaned"
| "clean_loop stopwords keep_negations keep_pronouns cleaned (tok # rest) =
     (let norm = normalize_token tok
      in if norm = [] then
           clean_loop stopwords keep_negations keep_pronouns cleaned rest
         else if keep_negations \<and> norm \<in> NEGATIONS then
           clean_loop stopwords keep_negations keep_pronouns (cleaned @ [norm]) rest
         else if keep_pronouns \<and> norm \<in> PRONOUNS then
           clean_loop stopwords keep_negations keep_pronouns (cleaned @ [norm]) rest
         else if norm \<in> stopwords then
           clean_loop stopwords keep_negations keep_pronouns cleaned rest
         else
           clean_loop stopwords keep_negations keep_pronouns (cleaned @ [norm]) rest)"

definition remove_stopwords ::
  "text_or_tokens \<Rightarrow> string set option \<Rightarrow> bool \<Rightarrow> bool \<Rightarrow> string \<Rightarrow> result"
where
  "remove_stopwords x stopwords keep_negations keep_pronouns return_type =
     (let cleaned = clean_loop (active_stopwords stopwords) keep_negations keep_pronouns []
                      (raw_tokens x)
      in if return_type = ''text'' then Joined (join '' '' cleaned) else TokenList cleaned)"

text \<open>
  The decision the loop body takes on one normalized token: it is appended to
  \<open>cleaned\<close> exactly when \<open>retained\<close> holds.
\<close>

definition retained :: "string set \<Rightarrow> bool \<Rightarrow> bool \<Rightarrow> string \<Rightarrow> bool" where
  "retained stopwords keep_negations keep_pronouns norm =
     (norm \<noteq> [] \<and>
      ((keep_negations \<and> norm \<in> NEGATIONS) \<or> (keep_pronouns \<and> norm \<in> PRONOUNS) \<or>
       norm \<notin> stopwords))"

section \<open>Properties of the normalizer\<close>

text \<open>The two loops as list functions.\<close>

lemma strip_front_dropWhile: "strip_front s = dropWhile (\<lambda>c. c \<in> set punct) s"
proof (induction s rule: strip_front.induct)
  case (1 token)
  show ?case
  proof (cases token)
    case Nil
    then show ?thesis by (simp add: strip_front.simps)
  next
    case (Cons c cs)
    with 1 show ?thesis by (simp add: strip_front.simps[of "c # cs"])
  qed
qed

lemma strip_back_rev_dropWhile:
  "strip_back s = rev (dropWhile (\<lambda>c. c \<in> set punct) (rev s))"
proof (induction s rule: strip_back.induct)
  case (1 token)
  show ?case
  proof (cases token rule: rev_cases)
    case Nil
    then show ?thesis by (simp add: strip_back.simps)
  next
    case (snoc cs c)
    with 1 show ?thesis by (simp add: strip_back.simps[of "cs @ [c]"])
  qed
qed

lemma lower_char_idem: "lower_char (lower_char c) = lower_char c"
  unfolding lower_char_def Let_def by (auto simp: of_char_of)

lemma strip_front_fixed: "s = [] \<or> hd s \<notin> set punct \<Longrightarrow> strip_front s = s"
  by (subst strip_front.simps) auto

lemma strip_back_fixed: "s = [] \<or> last s \<notin> set punct \<Longrightarrow> strip_back s = s"
  by (subst strip_back.simps) auto

lemma strip_front_hd: "strip_front s = [] \<or> hd (strip_front s) \<notin> set punct"
  unfolding strip_front_dropWhile
  by (metis (mono_tags, lifting) hd_dropWhile)

lemma strip_back_last: "strip_back s = [] \<or> last (strip_back s) \<notin> set punct"
  unfolding strip_back_rev_dropWhile
  by (metis (mono_tags, lifting) hd_dropWhile last_rev rev_is_Nil_conv)

text \<open>What the two loops remove: a prefix and a suffix made of punctuation.\<close>

lemma strip_front_split:
  "\<exists>pre. s = pre @ strip_front s \<and> set pre \<subseteq> set punct"
proof -
  let ?P = "\<lambda>c. c \<in> set punct"
  have "s = takeWhile ?P s @ strip_front s" by (simp add: strip_front_dropWhile)
  moreover have "set (takeWhile ?P s) \<subseteq> set punct" by (auto dest: set_takeWhileD)
  ultimately show ?thesis by blast
qed

lemma strip_back_split:
  "\<exists>suf. s = strip_back s @ suf \<and> set suf \<subseteq> set punct"
proof -
  let ?P = "\<lambda>c. c \<in> set punct"
  have "rev s = takeWhile ?P (rev s) @ dropWhile ?P (rev s)" by simp
  then have "s = rev (dropWhile ?P (rev s)) @ rev (takeWhile ?P (rev s))"
    by (metis rev_append rev_rev_ident)
  then have "s = strip_back s @ rev (takeWhile ?P (rev s))" by (simp add: strip_back_rev_dropWhile)
  moreover have "set (rev (takeWhile ?P (rev s))) \<subseteq> set punct" by (auto dest: set_takeWhileD)
  ultimately show ?thesis by blast
qed

lemma normalize_token_split:
  "\<exists>pre suf. lower t = pre @ normalize_token t @ suf \<and> set pre \<subseteq> set punct \<and> set suf \<subseteq> set punct"
proof -
  obtain pre where p: "lower t = pre @ strip_front (lower t)" "set pre \<subseteq> set punct"
    using strip_front_split by blast
  obtain suf where s: "strip_front (lower t) = strip_back (strip_front (lower t)) @ suf"
      "set suf \<subseteq> set punct"
    using strip_back_split by blast
  from p(1) s(1) have "lower t = pre @ normalize_token t @ suf"
    by (simp add: normalize_token_def)
  with p(2) s(2) show ?thesis by blast
qed

lemma strip_back_hd: "strip_back s \<noteq> [] \<Longrightarrow> hd (strip_back s) = hd s"
proof -
  assume ne: "strip_back s \<noteq> []"
  obtain suf where "s = strip_back s @ suf" using strip_back_split by blast
  then have "hd s = hd (strip_back s @ suf)" by simp
  with ne show ?thesis by simp
qed

lemma normalize_token_lowered: "lower (normalize_token t) = normalize_token t"
proof -
  obtain pre suf where "lower t = pre @ normalize_token t @ suf"
    using normalize_token_split by blast
  then have "set (normalize_token t) \<subseteq> set (lower t)" by auto
  then have "\<And>c. c \<in> set (normalize_token t) \<Longrightarrow> lower_char c = c"
    by (auto simp: lower_def lower_char_idem)
  then show ?thesis unfolding lower_def by (rule map_idI)
qed

lemma normalize_token_ends:
  "normalize_token t = [] \<or>
   (hd (normalize_token t) \<notin> set punct \<and> last (normalize_token t) \<notin> set punct)"
proof (cases "normalize_token t = []")
  case True
  then show ?thesis by simp
next
  case False
  let ?f = "strip_front (lower t)"
  from False have ne: "strip_back ?f \<noteq> []" by (simp add: normalize_token_def)
  then have "?f \<noteq> []" using strip_back_fixed[of "[]"] by auto
  with strip_front_hd[of "lower t"] have "hd ?f \<notin> set punct" by simp
  with strip_back_hd[OF ne] have "hd (normalize_token t) \<notin> set punct"
    by (simp add: normalize_token_def)
  moreover from strip_back_last[of ?f] ne have "last (normalize_token t) \<notin> set punct"
    by (simp add: normalize_token_def)
  ultimately show ?thesis by simp
qed

lemma normalize_token_idem: "normalize_token (normalize_token t) = normalize_token t"
proof -
  let ?r = "normalize_token t"
  have f: "strip_front ?r = ?r"
    using normalize_token_ends[of t] by (intro strip_front_fixed) blast
  have b: "strip_back ?r = ?r"
    using normalize_token_ends[of t] by (intro strip_back_fixed) blast
  have "normalize_token ?r = strip_back (strip_front (lower ?r))"
    by (simp add: normalize_token_def)
  also have "\<dots> = strip_back (strip_front ?r)" by (simp add: normalize_token_lowered)
  also have "\<dots> = ?r" by (simp add: f b)
  finally show ?thesis .
qed

section \<open>The filtering loop\<close>

lemma clean_loop_filter:
  "clean_loop sw kn kp cleaned toks =
     cleaned @ filter (retained sw kn kp) (map normalize_token toks)"
  by (induction toks arbitrary: cleaned) (auto simp: Let_def retained_def)

lemma remove_stopwords_tokens:
  "rt \<noteq> ''text'' \<Longrightarrow>
   remove_stopwords x sw kn kp rt =
     TokenList (filter (retained (active_stopwords sw) kn kp)
                  (map normalize_token (raw_tokens x)))"
  by (simp add: remove_stopwords_def clean_loop_filter)



lemma filter_by_own_set:
  "filter (\<lambda>w. w \<in> set (filter P xs)) xs = filter P xs"
  by (rule filter_cong) auto

lemma retained_normalized:
  "w \<in> set (filter (retained sw kn kp) (map normalize_token toks)) \<Longrightarrow>
   normalize_token w = w \<and> retained sw kn kp w"
  by (auto simp: normalize_token_idem)

lemma filter_retained_again:
  "filter (retained sw kn kp)
     (map normalize_token (filter (retained sw kn kp) (map normalize_token toks))) =
   filter (retained sw kn kp) (map normalize_token toks)"
proof -
  let ?out = "filter (retained sw kn kp) (map normalize_token toks)"
  have "map normalize_token ?out = ?out"
    by (rule map_idI) (use retained_normalized in blast)
  then show ?thesis by simp
qed

section \<open>The claims\<close>

text \<open>
  C1. The default scenario: on the text \<open>I am not happy with the battery life, but it is
  not terrible.\<close>, with the default stopword set, \<open>keep_negations=True\<close>,
  \<open>keep_pronouns=False\<close> and \<open>return_type="tokens"\<close>, the result is exactly the list
  i, not, happy, battery, life, not, terrible.
\<close>

theorem default_scenario_tokens:
  "remove_stopwords
     (Text ''I am not happy with the battery life, but it is not terrible.'')
     None True False ''tokens'' =
   TokenList [''i'', ''not'', ''happy'', ''battery'', ''life'', ''not'', ''terrible'']"
  by code_simp





text \<open>
  C4. On the same text with \<open>keep_negations=False\<close> and the default stopword set,
  \<open>not\<close> is still in the output, because it is not in \<open>DEFAULT_STOPWORDS\<close>: the
  stopword check decides, and with \<open>not\<close> added to the stopword set the same call
  drops it.
\<close>

theorem not_survives_without_negation_keep:
  "remove_stopwords
     (Text ''I am not happy with the battery life, but it is not terrible.'')
     None False False ''tokens'' =
   TokenList [''i'', ''not'', ''happy'', ''battery'', ''life'', ''not'', ''terrible''] \<and>
   ''not'' \<notin> DEFAULT_STOPWORDS \<and>
   remove_stopwords
     (Text ''I am not happy with the battery life, but it is not terrible.'')
     (Some (insert ''not'' DEFAULT_STOPWORDS)) False False ''tokens'' =
   TokenList [''i'', ''happy'', ''battery'', ''life'', ''terrible'']"
  by code_simp

text \<open>
  C5. With \<open>return_type="text"\<close> the result is the single-space join of the token list
  that the same call returns with \<open>return_type="tokens"\<close>.
\<close>

theorem text_is_join_of_tokens:
  "\<exists>out. remove_stopwords x stopwords keep_negations keep_pronouns ''tokens'' = TokenList out \<and>
         remove_stopwords x stopwords keep_negations keep_pronouns ''text'' =
           Joined (join '' '' out)"
  by (simp add: remove_stopwords_def)

text \<open>
  C6. The output tokens are an order-preserving subsequence of the normalized input
  tokens: there are at most as many as non-empty normalized input tokens (hence at most
  as many as input tokens), the output is the normalized input restricted to the words
  that occur in the output (same order, every occurrence kept, nothing merged), and the
  empty string is not among them.
\<close>

theorem output_is_subsequence:
  "\<exists>out. remove_stopwords x stopwords keep_negations keep_pronouns ''tokens'' = TokenList out \<and>
         subseq out (map normalize_token (raw_tokens x)) \<and>
         length out \<le> length (filter (\<lambda>n. n \<noteq> []) (map normalize_token (raw_tokens x))) \<and>
         length out \<le> length (raw_tokens x) \<and>
         out = filter (\<lambda>w. w \<in> set out) (map normalize_token (raw_tokens x)) \<and>
         [] \<notin> set out"
proof -
  let ?P = "retained (active_stopwords stopwords) keep_negations keep_pronouns"
  let ?ns = "map normalize_token (raw_tokens x)"
  let ?out = "filter ?P ?ns"
  have r: "remove_stopwords x stopwords keep_negations keep_pronouns ''tokens'' = TokenList ?out"
    by (simp add: remove_stopwords_tokens)
  have s: "subseq ?out ?ns" by simp
  have "?out = filter ?P (filter (\<lambda>n. n \<noteq> []) ?ns)"
    by (auto simp: retained_def intro: filter_cong)
  then have "length ?out = length (filter ?P (filter (\<lambda>n. n \<noteq> []) ?ns))" by simp
  also have "\<dots> \<le> length (filter (\<lambda>n. n \<noteq> []) ?ns)" by (rule length_filter_le)
  finally have l1: "length ?out \<le> length (filter (\<lambda>n. n \<noteq> []) ?ns)" .
  have l2: "length ?out \<le> length (raw_tokens x)"
    using length_filter_le[of ?P ?ns] by simp
  have d: "?out = filter (\<lambda>w. w \<in> set ?out) ?ns"
    by (rule filter_by_own_set[symmetric])
  have e: "[] \<notin> set ?out" by (simp add: retained_def)
  from r s l1 l2 d e show ?thesis by blast
qed

text \<open>C7. \<open>_normalize_token\<close> is idempotent.\<close>

theorem normalize_token_idempotent:
  "normalize_token (normalize_token t) = normalize_token t"
  by (rule normalize_token_idem)

text \<open>
  C8. Normalization strips the punctuation at the two ends and nothing else: the
  lower-cased token is the normalized token between a prefix and a suffix made of
  punctuation characters, and a non-empty normalized token neither starts nor ends
  with a punctuation character, so the prefix and the suffix are the whole runs of
  punctuation at the ends and everything between them, internal punctuation included,
  is kept. So \<open>life,\<close> becomes \<open>life\<close>, \<open>(Hello!)\<close> becomes \<open>hello\<close>, a token of
  punctuation only becomes empty, and \<open>don't\<close> stays \<open>don't\<close>, also inside outer
  punctuation. \<open>don't\<close> is in \<open>NEGATIONS\<close>: with \<open>keep_negations=True\<close> the loop appends
  it in the negation branch whatever the stopword set is, so an input token \<open>don't\<close> is
  in the output under the default configuration and under every stopword set; with
  \<open>don't\<close> as a stopword it is kept when \<open>keep_negations\<close> is true and dropped when it
  is false.
\<close>

theorem punctuation_stripped_at_ends:
  "(\<exists>pre suf. lower t = pre @ normalize_token t @ suf \<and>
       set pre \<subseteq> set punct \<and> set suf \<subseteq> set punct) \<and>
   (normalize_token t = [] \<or>
      (hd (normalize_token t) \<notin> set punct \<and> last (normalize_token t) \<notin> set punct)) \<and>
   normalize_token ''life,'' = ''life'' \<and>
   normalize_token ''(Hello!)'' = ''hello'' \<and>
   normalize_token ''?!...'' = [] \<and>
   normalize_token ''don't'' = ''don't'' \<and>
   normalize_token ''<<Don't>>!'' = ''don't'' \<and>
   ''don't'' \<in> NEGATIONS \<and>
   clean_loop stopwords True keep_pronouns cleaned (''don't'' # rest) =
     clean_loop stopwords True keep_pronouns (cleaned @ [''don't'']) rest \<and>
   (''don't'' \<in> set (raw_tokens x) \<longrightarrow>
      (\<exists>out. remove_stopwords x None True False ''tokens'' = TokenList out \<and>
             ''don't'' \<in> set out)) \<and>
   (''don't'' \<in> set (raw_tokens x) \<longrightarrow>
      (\<exists>out. remove_stopwords x (Some stopwords) True keep_pronouns ''tokens'' = TokenList out \<and>
             ''don't'' \<in> set out)) \<and>
   remove_stopwords (Tokens [''don't'']) (Some {''don't''}) True False ''tokens'' =
     TokenList [''don't''] \<and>
   remove_stopwords (Tokens [''don't'']) (Some {''don't''}) False False ''tokens'' =
     TokenList []"
proof -
  have a: "normalize_token ''life,'' = ''life''" by code_simp
  have a2: "normalize_token ''(Hello!)'' = ''hello''" by code_simp
  have a3: "normalize_token ''?!...'' = []" by code_simp
  have b: "normalize_token ''don't'' = ''don't''" by code_simp
  have b2: "normalize_token ''<<Don't>>!'' = ''don't''" by code_simp
  have c: "''don't'' \<in> NEGATIONS" by (simp add: NEGATIONS_def)
  have step: "clean_loop stopwords True keep_pronouns cleaned (''don't'' # rest) =
     clean_loop stopwords True keep_pronouns (cleaned @ [''don't'']) rest"
    using b c by (simp add: Let_def)
  have d: "\<exists>out. remove_stopwords x sw True kp ''tokens'' = TokenList out \<and>
             ''don't'' \<in> set out" if "''don't'' \<in> set (raw_tokens x)" for sw kp
  proof -
    from that b have "''don't'' \<in> normalize_token ` set (raw_tokens x)" by force
    with c have "''don't'' \<in>
        set (filter (retained (active_stopwords sw) True kp)
               (map normalize_token (raw_tokens x)))"
      by (simp add: retained_def)
    then show ?thesis by (simp add: remove_stopwords_tokens)
  qed
  have e1: "remove_stopwords (Tokens [''don't'']) (Some {''don't''}) True False ''tokens'' =
     TokenList [''don't'']" by code_simp
  have e2: "remove_stopwords (Tokens [''don't'']) (Some {''don't''}) False False ''tokens'' =
     TokenList []" by code_simp
  from normalize_token_split[of t] normalize_token_ends[of t] a a2 a3 b b2 c step
    d[of None False] d[of "Some stopwords" keep_pronouns] e1 e2
  show ?thesis by blast
qed

theorem punctuation_stripped_at_ends_witness:
  "''don't'' \<in> set (raw_tokens (Text ''I don't like it'')) \<and>
   (\<exists>out. remove_stopwords (Text ''I don't like it'') None True False ''tokens'' =
            TokenList out \<and> ''don't'' \<in> set out) \<and>
   (\<exists>out. remove_stopwords (Text ''I don't like it'') (Some {''don't'', ''it''}) True False
            ''tokens'' = TokenList out \<and> ''don't'' \<in> set out)"
proof -
  have h: "''don't'' \<in> set (raw_tokens (Text ''I don't like it''))" by code_simp
  from h punctuation_stripped_at_ends[of "''(Hello!)''" "{''don't'', ''it''}" False "[]" "[]"
      "Text ''I don't like it''"]
  show ?thesis by blast
qed

text \<open>
  C9. Every \<open>return_type\<close> other than \<open>"text"\<close> gives the token list, the same result as
  \<open>return_type="tokens"\<close>; the call returns, no error is raised.
\<close>

theorem other_return_type_gives_tokens:
  assumes "return_type \<noteq> ''text''"
  shows "remove_stopwords x stopwords keep_negations keep_pronouns return_type =
           remove_stopwords x stopwords keep_negations keep_pronouns ''tokens'' \<and>
         (\<exists>out. remove_stopwords x stopwords keep_negations keep_pronouns return_type =
                  TokenList out)"
  using assms by (simp add: remove_stopwords_def)

theorem other_return_type_gives_tokens_witness:
  "''TEXT'' \<noteq> ''text'' \<and> ''list'' \<noteq> ''text'' \<and>
   remove_stopwords (Text ''This is NOT a drill'') None True False ''TEXT'' =
     remove_stopwords (Text ''This is NOT a drill'') None True False ''tokens'' \<and>
   remove_stopwords (Text ''This is NOT a drill'') None True False ''list'' =
     remove_stopwords (Text ''This is NOT a drill'') None True False ''tokens''"
proof -
  have h1: "''TEXT'' \<noteq> ''text''" by simp
  have h2: "''list'' \<noteq> ''text''" by simp
  from h1 h2
    other_return_type_gives_tokens[OF h1, of "Text ''This is NOT a drill''" None True False]
    other_return_type_gives_tokens[OF h2, of "Text ''This is NOT a drill''" None True False]
  show ?thesis by blast
qed

text \<open>
  C10. \<open>remove_stopwords\<close> is idempotent on its token output: the output list, given
  back as a token list under the same configuration, is returned unchanged; each of
  its tokens is a fixpoint of normalization.
\<close>

theorem remove_stopwords_idempotent:
  "\<exists>out. remove_stopwords x stopwords keep_negations keep_pronouns ''tokens'' = TokenList out \<and>
         map normalize_token out = out \<and>
         remove_stopwords (Tokens out) stopwords keep_negations keep_pronouns ''tokens'' =
           TokenList out"
proof -
  let ?P = "retained (active_stopwords stopwords) keep_negations keep_pronouns"
  let ?out = "filter ?P (map normalize_token (raw_tokens x))"
  have r: "remove_stopwords x stopwords keep_negations keep_pronouns ''tokens'' = TokenList ?out"
    by (simp add: remove_stopwords_tokens)
  have m: "map normalize_token ?out = ?out"
    by (rule map_idI) (use retained_normalized in blast)
  have "remove_stopwords (Tokens ?out) stopwords keep_negations keep_pronouns ''tokens'' =
          TokenList (filter ?P (map normalize_token ?out))"
    by (simp add: remove_stopwords_tokens raw_tokens_def)
  also have "\<dots> = TokenList ?out" by (simp only: filter_retained_again)
  finally show ?thesis using r m by blast
qed

end
